theory Spec2Isabelle
  imports Complex_Main
begin

section \<open>The overlapping-generations housing model of \<open>src/model.ts\<close>\<close>

text \<open>
  The program is one pure function, \<open>simulate\<close>, from a parameter record to a list of
  result records. Its \<open>number\<close> values are modelled as \<^typ>\<open>real\<close>: the embedding is the
  program in exact arithmetic, and it agrees with a run of the program in which every
  intermediate double is finite, up to rounding. Three places where the program can leave
  the finite numbers are worth naming, since HOL gives a total function some value there:
  \<^item> \<open>Math.log(x)\<close> is \<^term>\<open>ln x\<close>; for \<open>x \<le> 0\<close> the program has \<open>-Infinity\<close> or \<open>NaN\<close>,
    HOL has \<open>ln \<bar>x\<bar>\<close> or \<open>0\<close>. With positive income, \<open>0 < beta\<close> and a non-negative next
    price every logarithm that the bisection takes has a positive argument
    (\<open>s_own_feasible\<close> below).
  \<^item> \<open>H_t / N_t\<close> with \<open>N_t = 0\<close> is \<open>\<plusminus>Infinity\<close> or \<open>NaN\<close> in the program and \<open>0\<close> in HOL:
    the number of available units, the one place where the program divides by the
    population, has this case written out.
  \<^item> The \<open>NaN\<close> that the program writes on purpose, as the mean utility of an empty tenure
    group, is the value \<^term>\<open>None\<close> of an option type.
  Loops are recursion or folds over the index list, arrays are lists, and an array
  assignment is a list update.
\<close>

subsection \<open>Parameters and results\<close>

record ModelParams =
  popGrowthRate :: real
  techGrowthRate :: real
  housingGrowthRate :: real
  inequality :: real
  beta :: real
  initialTech :: real
  initialPop :: real
  initialHousing :: real

record GenerationResult =
  name :: string
  time :: nat
  ownershipRate :: real
  priceToIncome :: real
  avgLifetimeUtility :: real
  avgUtilityOwners :: "real option"
  avgUtilityRenters :: "real option"
  utilityP25 :: real
  utilityMedian :: real
  utilityP75 :: real
  avgConsumptionYoung :: real
  avgConsumptionOld :: real
  housePrice :: real
  population :: real
  housingStock :: real
  incomeMean :: real

text \<open>
  A result is a JavaScript object: a finite map from property names to values. The
  property names of the object literal that \<open>simulate\<close> pushes, in the order written.
\<close>

datatype js_value = Str string | Num real | NumOrNaN "real option"

definition to_object :: "GenerationResult \<Rightarrow> (string \<times> js_value) list" where
  "to_object r =
     [(''name'', Str (name r)),
      (''time'', Num (real (time r))),
      (''ownershipRate'', Num (ownershipRate r)),
      (''priceToIncome'', Num (priceToIncome r)),
      (''avgLifetimeUtility'', Num (avgLifetimeUtility r)),
      (''avgUtilityOwners'', NumOrNaN (avgUtilityOwners r)),
      (''avgUtilityRenters'', NumOrNaN (avgUtilityRenters r)),
      (''utilityP25'', Num (utilityP25 r)),
      (''utilityMedian'', Num (utilityMedian r)),
      (''utilityP75'', Num (utilityP75 r)),
      (''avgConsumptionYoung'', Num (avgConsumptionYoung r)),
      (''avgConsumptionOld'', Num (avgConsumptionOld r)),
      (''housePrice'', Num (housePrice r)),
      (''population'', Num (population r)),
      (''housingStock'', Num (housingStock r)),
      (''incomeMean'', Num (incomeMean r))]"

text \<open>Reading a property: \<open>undefined\<close> is \<^term>\<open>None\<close>.\<close>

definition property :: "GenerationResult \<Rightarrow> string \<Rightarrow> js_value option" where
  "property r k = map_of (to_object r) k"

subsection \<open>The inverse normal distribution function\<close>

definition probit :: "real \<Rightarrow> real" where
  "probit p =
     (if p \<le> 0 \<or> p \<ge> 1 then 0
      else
        let a1 = - 39.69683028665376; a2 = 220.9460984245205;
            a3 = - 275.9285104469687; a4 = 138.3577518672690;
            a5 = - 30.66479806614716; a6 = 2.506628277459239;
            b1 = - 54.47609879822406; b2 = 161.5858368580409;
            b3 = - 155.6989798598866; b4 = 66.80131188771972;
            b5 = - 13.28068155288572;
            c1 = - 0.007784894002430293; c2 = - 0.3223964580411365;
            c3 = - 2.400758277161838; c4 = - 2.549732539343734;
            c5 = 4.374664141464968; c6 = 2.938163982698783;
            d1 = 0.007784695709041462; d2 = 0.3224671290700398;
            d3 = 2.445134137142996; d4 = 3.754408661907416;
            p_low = 0.02425;
            p_high = 1 - p_low
        in
          if p < p_low then
            (let q = sqrt (- 2 * ln p)
             in (((((c1 * q + c2) * q + c3) * q + c4) * q + c5) * q + c6) /
                ((((d1 * q + d2) * q + d3) * q + d4) * q + 1))
          else if p \<le> p_high then
            (let q = p - 0.5; r = q * q
             in (((((a1 * r + a2) * r + a3) * r + a4) * r + a5) * r + a6) * q /
                (((((b1 * r + b2) * r + b3) * r + b4) * r + b5) * r + 1))
          else
            (let q = sqrt (- 2 * ln (1 - p))
             in - (((((c1 * q + c2) * q + c3) * q + c4) * q + c5) * q + c6) /
                ((((d1 * q + d2) * q + d3) * q + d4) * q + 1)))"

subsection \<open>Constants and the productivity draws\<close>

definition SIMULATION_STEPS :: nat where
  "SIMULATION_STEPS = 10"

definition AGENTS_COUNT :: nat where
  "AGENTS_COUNT = 1000"

definition ALPHA :: real where
  "ALPHA = 1"

definition MAX_ITER :: nat where
  "MAX_ITER = 20"

definition productivities :: "ModelParams \<Rightarrow> real list" where
  "productivities params =
     map (\<lambda>i. let p = (real i + 0.5) / real AGENTS_COUNT; z = probit p
              in exp (inequality params * z))
         [0..<AGENTS_COUNT]"

text \<open>Population, housing stock and technology of period \<open>t\<close>.\<close>

definition N_at :: "ModelParams \<Rightarrow> nat \<Rightarrow> real" where
  "N_at params t = initialPop params * (1 + popGrowthRate params) ^ t"

definition H_at :: "ModelParams \<Rightarrow> nat \<Rightarrow> real" where
  "H_at params t = initialHousing params * (1 + housingGrowthRate params) ^ t"

definition A_at :: "ModelParams \<Rightarrow> nat \<Rightarrow> real" where
  "A_at params t = initialTech params * (1 + techGrowthRate params) ^ t"

subsection \<open>Willingness to pay: the bisection\<close>

text \<open>
  The bisection is written twice in the program, in the price loop and in the final
  allocation, with the same text; both are this function. The state of the loop is
  \<open>(low, high, wtp)\<close>.
\<close>

definition s_rent_of :: "real \<Rightarrow> real \<Rightarrow> real" where
  "s_rent_of b y = (b * y) / (1 + b)"

definition u_rent_of :: "real \<Rightarrow> real \<Rightarrow> real" where
  "u_rent_of b y = ln (y - s_rent_of b y) + b * ln (s_rent_of b y)"

definition s_own_of :: "real \<Rightarrow> real \<Rightarrow> real \<Rightarrow> real \<Rightarrow> real" where
  "s_own_of b y P_next P_guess =
     (let s_own = (b * (y - P_guess) - P_next) / (1 + b)
      in if s_own < 0 then 0 else s_own)"

definition u_own_of :: "real \<Rightarrow> real \<Rightarrow> real \<Rightarrow> real \<Rightarrow> real" where
  "u_own_of b y P_next P_guess =
     (let s_own = s_own_of b y P_next P_guess
      in ln (y - P_guess - s_own) + b * ln (s_own + P_next) + ALPHA)"

definition bisect_step :: "real \<Rightarrow> real \<Rightarrow> real \<Rightarrow> real \<times> real \<times> real \<Rightarrow> real \<times> real \<times> real" where
  "bisect_step b y P_next st =
     (case st of (low, high, wtp) \<Rightarrow>
        let P_guess = (low + high) / 2;
            s_own = s_own_of b y P_next P_guess
        in if y - P_guess - s_own \<le> 0 then (low, P_guess, wtp)
           else if u_own_of b y P_next P_guess > u_rent_of b y then (P_guess, high, P_guess)
           else (low, P_guess, wtp))"

primrec bisect_loop :: "nat \<Rightarrow> real \<Rightarrow> real \<Rightarrow> real \<Rightarrow> real \<times> real \<times> real \<Rightarrow> real \<times> real \<times> real" where
  "bisect_loop 0 b y P_next st = st"
| "bisect_loop (Suc n) b y P_next st = bisect_loop n b y P_next (bisect_step b y P_next st)"

definition solve_wtp :: "real \<Rightarrow> real \<Rightarrow> real \<Rightarrow> real" where
  "solve_wtp b y P_next = snd (snd (bisect_loop 15 b y P_next (0, y, 0)))"

subsection \<open>Market clearing\<close>

definition sort_desc :: "real list \<Rightarrow> real list" where
  "sort_desc xs = sort_key uminus xs"

text \<open>
  The number of units is \<open>Math.floor(Math.min(1.0, H_t / N_t) * AGENTS_COUNT)\<close>. For
  \<open>N_t = 0\<close> the quotient of the program is \<open>+Infinity\<close> when \<open>H_t\<close> is positive and
  \<open>-Infinity\<close> or \<open>NaN\<close> otherwise: the number is then 1000 in the first case, and in the
  second a value for which \<open>housesAvailable > 0\<close> and \<open>i < numOwners\<close> are false, as they
  are for 0, which stands for it.
\<close>

definition housesAvailable :: "real \<Rightarrow> real \<Rightarrow> int" where
  "housesAvailable H_t N_t =
     (if N_t = 0 then (if 0 < H_t then int AGENTS_COUNT else 0)
      else
        let supplyRatio = min 1 (H_t / N_t)
        in \<lfloor>supplyRatio * real AGENTS_COUNT\<rfloor>)"

text \<open>
  \<open>clearing_price k wtps\<close> is the block "Sort WTPs descending; Determine price" of the
  price loop, for \<open>k\<close> houses available.
\<close>

definition clearing_price :: "int \<Rightarrow> real list \<Rightarrow> real" where
  "clearing_price k wtps =
     (let sorted = sort_desc wtps
      in if k > 0 then
           (let priceIndex = k - 1;
                priceIndex = (if priceIndex \<ge> int (length sorted) then int (length sorted) - 1
                              else priceIndex)
            in sorted ! nat priceIndex)
         else 0)"

subsection \<open>The price path\<close>

definition period_wtps :: "ModelParams \<Rightarrow> real list \<Rightarrow> nat \<Rightarrow> real \<Rightarrow> real list" where
  "period_wtps params prods t P_next =
     map (\<lambda>a. solve_wtp (beta params) (A_at params t * a) P_next) prods"

definition proposed_price :: "ModelParams \<Rightarrow> real list \<Rightarrow> real list \<Rightarrow> nat \<Rightarrow> real" where
  "proposed_price params prods prices t =
     clearing_price (housesAvailable (H_at params t) (N_at params t))
       (period_wtps params prods t (prices ! (t + 1)))"

text \<open>The body of the loop over the periods: the state is \<open>(newPrices, maxDiff)\<close>.\<close>

definition period_update ::
  "ModelParams \<Rightarrow> real list \<Rightarrow> real list \<Rightarrow> nat \<Rightarrow> real list \<times> real \<Rightarrow> real list \<times> real" where
  "period_update params prods prices t st =
     (case st of (newPrices, maxDiff) \<Rightarrow>
        let newPrice = proposed_price params prods prices t;
            newPrices' = newPrices[t := 0.5 * prices ! t + 0.5 * newPrice]
        in (newPrices', max maxDiff \<bar>newPrices' ! t - prices ! t\<bar>))"

definition price_iteration :: "ModelParams \<Rightarrow> real list \<Rightarrow> real list \<Rightarrow> real list \<times> real" where
  "price_iteration params prods prices =
     (let lastT = SIMULATION_STEPS - 1;
          newPrices = prices[lastT := prices ! (lastT - 1) * (1 + techGrowthRate params)]
      in fold (period_update params prods prices) [0..<SIMULATION_STEPS - 1] (newPrices, 0))"

text \<open>The outer loop, with the iterations that are left as its counter.\<close>

primrec price_loop :: "nat \<Rightarrow> ModelParams \<Rightarrow> real list \<Rightarrow> real list \<Rightarrow> real list" where
  "price_loop 0 params prods prices = prices"
| "price_loop (Suc n) params prods prices =
     (case price_iteration params prods prices of (newPrices, maxDiff) \<Rightarrow>
        if maxDiff < 0.01 then newPrices else price_loop n params prods newPrices)"

definition initial_prices :: "ModelParams \<Rightarrow> real list" where
  "initial_prices params =
     replicate SIMULATION_STEPS (initialTech params * initialPop params * 0.1)"

definition solve_prices :: "ModelParams \<Rightarrow> real list" where
  "solve_prices params =
     price_loop MAX_ITER params (productivities params) (initial_prices params)"

subsection \<open>The final allocation\<close>

record agent =
  idx :: nat
  income :: real
  wtp :: real
  u_rent :: real

definition make_agents :: "ModelParams \<Rightarrow> real list \<Rightarrow> nat \<Rightarrow> real \<Rightarrow> agent list" where
  "make_agents params prods t P_next =
     map (\<lambda>i. let y = A_at params t * prods ! i
              in \<lparr>idx = i, income = y, wtp = solve_wtp (beta params) y P_next,
                  u_rent = u_rent_of (beta params) y\<rparr>)
         [0..<AGENTS_COUNT]"

record totals =
  totalUtility :: real
  totalUtilityOwners :: real
  totalUtilityRenters :: real
  totalConsYoung :: real
  totalConsOld :: real
  ownerCount :: nat
  agentUtilities :: "real list"

definition totals0 :: totals where
  "totals0 = \<lparr>totalUtility = 0, totalUtilityOwners = 0, totalUtilityRenters = 0,
              totalConsYoung = 0, totalConsOld = 0, ownerCount = 0, agentUtilities = []\<rparr>"

definition allocate_agent ::
  "real \<Rightarrow> real \<Rightarrow> real \<Rightarrow> agent list \<Rightarrow> int \<Rightarrow> nat \<Rightarrow> totals \<Rightarrow> totals" where
  "allocate_agent b P_t P_next agents numOwners i acc =
     (let a = agents ! i;
          isOwner = (int i < numOwners)
      in if isOwner then
           (let s0 = (b * (income a - P_t) - P_next) / (1 + b);
                s = (if s0 < 0 then 0 else s0);
                c_young = income a - P_t - s;
                c_old = s + P_next;
                u = ln c_young + b * ln c_old + ALPHA
            in acc\<lparr>totalUtilityOwners := totalUtilityOwners acc + u,
                   ownerCount := ownerCount acc + 1,
                   totalUtility := totalUtility acc + u,
                   agentUtilities := agentUtilities acc @ [u],
                   totalConsYoung := totalConsYoung acc + c_young,
                   totalConsOld := totalConsOld acc + c_old\<rparr>)
         else
           (let s = (b * income a) / (1 + b);
                c_young = income a - s;
                c_old = s;
                u = u_rent a
            in acc\<lparr>totalUtilityRenters := totalUtilityRenters acc + u,
                   totalUtility := totalUtility acc + u,
                   agentUtilities := agentUtilities acc @ [u],
                   totalConsYoung := totalConsYoung acc + c_young,
                   totalConsOld := totalConsOld acc + c_old\<rparr>))"

definition allocation :: "ModelParams \<Rightarrow> real list \<Rightarrow> real list \<Rightarrow> nat \<Rightarrow> totals" where
  "allocation params prods prices t =
     (let P_t = prices ! t;
          P_next = prices ! (t + 1);
          agents = sort_key (\<lambda>a. - wtp a) (make_agents params prods t P_next);
          numOwners = housesAvailable (H_at params t) (N_at params t)
      in fold (allocate_agent (beta params) P_t P_next agents numOwners)
           [0..<AGENTS_COUNT] totals0)"

definition generations :: "string list" where
  "generations = [''Boomers'', ''Millennials'', ''Gen Alpha'']"

definition generation_result :: "ModelParams \<Rightarrow> real list \<Rightarrow> real list \<Rightarrow> nat \<Rightarrow> GenerationResult" where
  "generation_result params prods prices t =
     (let P_t = prices ! t;
          incomeSum = fold (\<lambda>i s. s + A_at params t * prods ! i) [0..<AGENTS_COUNT] 0;
          acc = allocation params prods prices t;
          utilities = sort (agentUtilities acc);
          p25Index = nat \<lfloor>0.25 * real AGENTS_COUNT\<rfloor>;
          p50Index = nat \<lfloor>0.50 * real AGENTS_COUNT\<rfloor>;
          p75Index = nat \<lfloor>0.75 * real AGENTS_COUNT\<rfloor>
      in \<lparr>name = generations ! t,
          time = t,
          ownershipRate = real (ownerCount acc) / real AGENTS_COUNT,
          priceToIncome = P_t / (incomeSum / real AGENTS_COUNT),
          avgLifetimeUtility = totalUtility acc / real AGENTS_COUNT,
          avgUtilityOwners =
            (if ownerCount acc > 0 then Some (totalUtilityOwners acc / real (ownerCount acc))
             else None),
          avgUtilityRenters =
            (if AGENTS_COUNT - ownerCount acc > 0
             then Some (totalUtilityRenters acc / real (AGENTS_COUNT - ownerCount acc))
             else None),
          utilityP25 = utilities ! p25Index,
          utilityMedian = utilities ! p50Index,
          utilityP75 = utilities ! p75Index,
          avgConsumptionYoung = totalConsYoung acc / real AGENTS_COUNT,
          avgConsumptionOld = totalConsOld acc / real AGENTS_COUNT,
          housePrice = P_t,
          population = N_at params t,
          housingStock = H_at params t,
          incomeMean = incomeSum / real AGENTS_COUNT\<rparr>)"

definition simulate :: "ModelParams \<Rightarrow> GenerationResult list" where
  "simulate params =
     (let prods = productivities params;
          prices = solve_prices params
      in map (generation_result params prods prices) [0..<3])"

text \<open>
  \<open>simulate\<close> has no \<open>throw\<close> and calls nothing that throws (an array read out of range
  is \<open>undefined\<close> in JavaScript, not an exception): every call returns its list. As a
  value of the result type with an error alternative, the outcome of a call is always on
  the right.
\<close>

datatype error = InvalidConfiguration string

definition simulate_outcome :: "ModelParams \<Rightarrow> error + GenerationResult list" where
  "simulate_outcome params = Inr (simulate params)"

subsection \<open>Configurations\<close>

text \<open>The default parameters of the user interface (\<open>DEFAULT_PARAMS\<close> in \<open>App.tsx\<close>).\<close>

definition DEFAULT_PARAMS :: ModelParams where
  "DEFAULT_PARAMS =
     \<lparr>popGrowthRate = 0.25, techGrowthRate = 0.50, housingGrowthRate = 0.05,
      inequality = 0.4, beta = 0.3, initialTech = 2500000, initialPop = 1000,
      initialHousing = 1000\<rparr>"

text \<open>
  The configurations that the specification calls ill-posed: a dispersion or a discount
  factor that is not positive, or an initial technology, population or housing stock that
  is not positive.
\<close>

definition ill_posed :: "ModelParams \<Rightarrow> bool" where
  "ill_posed params =
     (inequality params \<le> 0 \<or> beta params \<le> 0 \<or> initialTech params \<le> 0 \<or>
      initialPop params \<le> 0 \<or> initialHousing params \<le> 0)"

subsection \<open>Invariants of the bisection\<close>

text \<open>
  With a non-negative income the bracket stays inside \<open>[0, y]\<close> and \<open>wtp\<close> is its lower
  end. With a negative income every guess is unaffordable: \<open>low\<close> and \<open>wtp\<close> stay \<open>0\<close>.
\<close>

definition bisect_inv :: "real \<Rightarrow> real \<times> real \<times> real \<Rightarrow> bool" where
  "bisect_inv y st = (case st of (low, high, w) \<Rightarrow> 0 \<le> low \<and> low \<le> high \<and> high \<le> y \<and> w = low)"

definition bisect_neg :: "real \<Rightarrow> real \<times> real \<times> real \<Rightarrow> bool" where
  "bisect_neg y st = (case st of (low, high, w) \<Rightarrow> low = 0 \<and> y \<le> high \<and> high < 0 \<and> w = 0)"

subsection \<open>The test of the bisection and its bracket\<close>

text \<open>
  \<open>accepts b y P_next P\<close> is the condition under which a step of the bisection moves
  \<open>low\<close> and \<open>wtp\<close> to the guess \<open>P\<close>: the guess is affordable and owning at \<open>P\<close> is
  strictly better than renting. After \<open>n\<close> steps the bracket has the width \<open>y / 2\<^sup>n\<close>,
  its lower end is 0 or accepted, and its upper end is \<open>y\<close> or not accepted.
\<close>

definition accepts :: "real \<Rightarrow> real \<Rightarrow> real \<Rightarrow> real \<Rightarrow> bool" where
  "accepts b y P_next P =
     (\<not> y - P - s_own_of b y P_next P \<le> 0 \<and> u_own_of b y P_next P > u_rent_of b y)"

definition bracket_inv :: "real \<Rightarrow> real \<Rightarrow> real \<Rightarrow> nat \<Rightarrow> real \<times> real \<times> real \<Rightarrow> bool" where
  "bracket_inv b y P_next n st =
     (case st of (low, high, w) \<Rightarrow>
        w = low \<and> 0 \<le> low \<and> high \<le> y \<and> high - low = y / 2 ^ n \<and>
        (low = 0 \<or> accepts b y P_next low) \<and> (high = y \<or> \<not> accepts b y P_next high))"


section \<open>Shape of the run\<close>

lemma length_productivities: "length (productivities params) = AGENTS_COUNT"
  by (simp add: productivities_def)

lemma fst_period_update:
  "fst (period_update params prods prices t (np, d)) =
     np[t := 0.5 * prices ! t + 0.5 * proposed_price params prods prices t]"
  by (simp add: period_update_def Let_def)

text \<open>
  The loop over the periods writes entries \<open>0..n-1\<close> of the copy, each from the old
  vector \<open>prices\<close>, and leaves the entries from \<open>n\<close> on as they were.
\<close>

lemma fst_fold_period_update:
  "n \<le> length np \<Longrightarrow>
   fst (fold (period_update params prods prices) [0..<n] (np, d)) =
     map (\<lambda>t. 0.5 * prices ! t + 0.5 * proposed_price params prods prices t) [0..<n] @ drop n np"
proof (induction n)
  case 0
  then show ?case by simp
next
  case (Suc n)
  then have n: "n < length np" by simp
  obtain a b where ab: "fold (period_update params prods prices) [0..<n] (np, d) = (a, b)"
    by (cases "fold (period_update params prods prices) [0..<n] (np, d)")
  with Suc have a: "a = map (\<lambda>t. 0.5 * prices ! t + 0.5 * proposed_price params prods prices t) [0..<n] @ drop n np"
    by simp
  have d: "drop n np = np ! n # drop (Suc n) np"
    using n by (simp add: Cons_nth_drop_Suc)
  have "fold (period_update params prods prices) [0..<Suc n] (np, d) =
          period_update params prods prices n (a, b)"
    by (simp add: ab)
  then have "fst (fold (period_update params prods prices) [0..<Suc n] (np, d)) =
          a[n := 0.5 * prices ! n + 0.5 * proposed_price params prods prices n]"
    by (simp add: fst_period_update)
  also have "\<dots> = map (\<lambda>t. 0.5 * prices ! t + 0.5 * proposed_price params prods prices t) [0..<Suc n]
       @ drop (Suc n) np"
    unfolding a d by (simp add: list_update_append)
  finally show ?case .
qed

lemma price_iteration_eq:
  assumes "length prices = SIMULATION_STEPS"
  shows "fst (price_iteration params prods prices) =
     map (\<lambda>t. 0.5 * prices ! t + 0.5 * proposed_price params prods prices t) [0..<9]
       @ [prices ! 8 * (1 + techGrowthRate params)]"
proof -
  have "drop 9 (prices[9 := prices ! 8 * (1 + techGrowthRate params)]) = [prices ! 8 * (1 + techGrowthRate params)]"
    using assms by (simp add: SIMULATION_STEPS_def drop_update_cancel Cons_nth_drop_Suc[symmetric])
  then show ?thesis
    using assms fst_fold_period_update[of 9 "prices[9 := prices ! 8 * (1 + techGrowthRate params)]" params prods prices 0]
    by (simp add: price_iteration_def SIMULATION_STEPS_def)
qed

lemma length_price_iteration:
  "length prices = SIMULATION_STEPS \<Longrightarrow> length (fst (price_iteration params prods prices)) = SIMULATION_STEPS"
  by (simp add: price_iteration_eq) (simp add: SIMULATION_STEPS_def)

lemma length_price_loop:
  "length prices = SIMULATION_STEPS \<Longrightarrow> length (price_loop n params prods prices) = SIMULATION_STEPS"
proof (induction n arbitrary: prices)
  case 0
  then show ?case by simp
next
  case (Suc n)
  obtain np d where it: "price_iteration params prods prices = (np, d)"
    by (cases "price_iteration params prods prices")
  with length_price_iteration[OF Suc.prems, of params prods] have "length np = SIMULATION_STEPS" by simp
  with Suc.IH[of np] show ?case by (simp add: it)
qed

lemma length_solve_prices: "length (solve_prices params) = SIMULATION_STEPS"
  by (simp add: solve_prices_def length_price_loop initial_prices_def)

lemma simulate_nth:
  "t < 3 \<Longrightarrow> simulate params ! t = generation_result params (productivities params) (solve_prices params) t"
  by (simp add: simulate_def Let_def)

lemma length_simulate: "length (simulate params) = 3"
  by (simp add: simulate_def Let_def)

lemma time_generation_result: "time (generation_result params prods prices t) = t"
  by (simp add: generation_result_def Let_def)

lemma name_generation_result: "name (generation_result params prods prices t) = generations ! t"
  by (simp add: generation_result_def Let_def)

lemma upt3: "[0..<3] = [0, 1, 2]"
  by (simp add: upt_rec)

text \<open>
  Claim C10. For every configuration \<open>simulate\<close> returns exactly three records, with
  times 0, 1, 2 in this order and the names Boomers, Millennials, Gen Alpha. The horizon
  is the constant 10 and the cross-section is the constant 1000: the price path has 10
  entries and the productivity draws, the willingness-to-pay list of a period and the list
  of agents have 1000 entries each, whatever the parameters (the initial population
  included) are.
\<close>

theorem simulate_three_generations:
  "length (simulate params) = 3 \<and>
   map time (simulate params) = [0, 1, 2] \<and>
   map name (simulate params) = [''Boomers'', ''Millennials'', ''Gen Alpha''] \<and>
   SIMULATION_STEPS = 10 \<and> length (solve_prices params) = 10 \<and>
   AGENTS_COUNT = 1000 \<and> length (productivities params) = 1000 \<and>
   length (period_wtps params (productivities params) t P_next) = 1000 \<and>
   length (make_agents params (productivities params) t P_next) = 1000"
proof -
  have "map time (simulate params) = [0, 1, 2]"
    by (simp add: simulate_def Let_def upt3 time_generation_result)
  moreover have "map name (simulate params) = [''Boomers'', ''Millennials'', ''Gen Alpha'']"
    by (simp add: simulate_def Let_def upt3 name_generation_result generations_def)
  moreover have "length (solve_prices params) = 10"
    using length_solve_prices[of params] by (simp add: SIMULATION_STEPS_def)
  moreover have "length (productivities params) = 1000"
    using length_productivities[of params] by (simp add: AGENTS_COUNT_def)
  ultimately show ?thesis
    by (simp add: length_simulate period_wtps_def make_agents_def)
       (simp add: SIMULATION_STEPS_def AGENTS_COUNT_def)
qed

section \<open>One iteration of the price path\<close>

text \<open>
  Claim C5. One outer iteration, started on a price vector of the length of the horizon,
  reads only that vector: the terminal entry of the new vector is the old price of the
  period before it times one plus the technology growth rate, and the entry of every
  other period \<open>t\<close> is half its old value plus half the clearing price of the
  willingness-to-pay list computed against the old price of period \<open>t + 1\<close>. The new
  vector has the length of the horizon again, so this holds in every iteration.
\<close>

theorem price_iteration_snapshot:
  assumes "length prices = SIMULATION_STEPS" and "t < SIMULATION_STEPS - 1"
  shows "fst (price_iteration params prods prices) ! (SIMULATION_STEPS - 1) =
           prices ! (SIMULATION_STEPS - 2) * (1 + techGrowthRate params) \<and>
         fst (price_iteration params prods prices) ! t =
           0.5 * prices ! t +
           0.5 * clearing_price (housesAvailable (H_at params t) (N_at params t))
                   (map (\<lambda>a. solve_wtp (beta params) (A_at params t * a) (prices ! (t + 1))) prods) \<and>
         length (fst (price_iteration params prods prices)) = SIMULATION_STEPS"
proof -
  have t: "t < 9" using assms(2) by (simp add: SIMULATION_STEPS_def)
  have "fst (price_iteration params prods prices) ! 9 = prices ! 8 * (1 + techGrowthRate params)"
    by (simp add: price_iteration_eq[OF assms(1)] nth_append)
  moreover have "fst (price_iteration params prods prices) ! t =
      0.5 * prices ! t + 0.5 * proposed_price params prods prices t"
    using t by (simp add: price_iteration_eq[OF assms(1)] nth_append)
  ultimately show ?thesis
    using length_price_iteration[OF assms(1), of params prods]
    by (simp add: SIMULATION_STEPS_def proposed_price_def period_wtps_def)
qed

theorem price_iteration_snapshot_witness:
  "length (replicate 10 (1::real)) = SIMULATION_STEPS \<and> (0::nat) < SIMULATION_STEPS - 1 \<and>
   fst (price_iteration DEFAULT_PARAMS [1] (replicate 10 1)) ! 9 = 3 / 2"
  using price_iteration_snapshot[of "replicate 10 1" 0 DEFAULT_PARAMS "[1]"]
  by (simp add: SIMULATION_STEPS_def DEFAULT_PARAMS_def)

section \<open>Bounds on the willingness to pay\<close>

lemma bisect_step_inv: "bisect_inv y st \<Longrightarrow> bisect_inv y (bisect_step b y P_next st)"
  by (cases st) (auto simp: bisect_inv_def bisect_step_def Let_def)

lemma bisect_loop_inv: "bisect_inv y st \<Longrightarrow> bisect_inv y (bisect_loop n b y P_next st)"
  by (induction n arbitrary: st) (simp_all add: bisect_step_inv)

lemma solve_wtp_bounds:
  assumes "0 \<le> y"
  shows "0 \<le> solve_wtp b y P_next \<and> solve_wtp b y P_next \<le> y"
proof -
  have "bisect_inv y (0, y, 0)" using assms by (simp add: bisect_inv_def)
  then have "bisect_inv y (bisect_loop 15 b y P_next (0, y, 0))" by (rule bisect_loop_inv)
  then show ?thesis
    by (cases "bisect_loop 15 b y P_next (0, y, 0)") (auto simp: solve_wtp_def bisect_inv_def)
qed

lemma s_own_nonneg: "0 \<le> s_own_of b y P_next P"
  by (simp add: s_own_of_def Let_def)

lemma bisect_step_neg:
  assumes "y < 0" "bisect_neg y st"
  shows "bisect_neg y (bisect_step b y P_next st)"
proof -
  obtain high where st: "st = (0, high, 0)" and h: "y \<le> high" "high < 0"
    using assms(2) by (cases st) (auto simp: bisect_neg_def)
  have "y - (0 + high) / 2 - s_own_of b y P_next ((0 + high) / 2) \<le> 0"
    using s_own_nonneg[of b y P_next "(0 + high) / 2"] h by simp
  then show ?thesis using h by (simp add: st bisect_step_def Let_def bisect_neg_def)
qed

lemma bisect_loop_neg: "y < 0 \<Longrightarrow> bisect_neg y st \<Longrightarrow> bisect_neg y (bisect_loop n b y P_next st)"
  by (induction n arbitrary: st) (simp_all add: bisect_step_neg)

lemma solve_wtp_neg:
  assumes "y < 0"
  shows "solve_wtp b y P_next = 0"
proof -
  have "bisect_neg y (0, y, 0)" using assms by (simp add: bisect_neg_def)
  then have "bisect_neg y (bisect_loop 15 b y P_next (0, y, 0))" using assms by (simp add: bisect_loop_neg)
  then show ?thesis
    by (cases "bisect_loop 15 b y P_next (0, y, 0)") (auto simp: solve_wtp_def bisect_neg_def)
qed

lemma solve_wtp_nonneg: "0 \<le> solve_wtp b y P_next"
  using solve_wtp_bounds[of y b P_next] solve_wtp_neg[of y b P_next] by (cases "0 \<le> y") auto

text \<open>
  Claim C3. For a household with income \<open>y > 0\<close>, whatever the discount factor and the
  next-period price are, the willingness to pay that the bisection returns lies in
  \<open>[0, y]\<close>.
\<close>

theorem solve_wtp_within_income:
  "0 < y \<Longrightarrow> 0 \<le> solve_wtp b y P_next \<and> solve_wtp b y P_next \<le> y"
  using solve_wtp_bounds[of y b P_next] by simp

theorem solve_wtp_within_income_witness:
  "(0::real) < 1 \<and> 0 \<le> solve_wtp 0.3 1 0 \<and> solve_wtp 0.3 1 0 \<le> 1"
  using solve_wtp_within_income[of 1 "0.3" 0] by simp

section \<open>Willingness to pay and income\<close>

lemma bisect_step_accepts:
  "bisect_step b y P_next (low, high, w) =
     (if accepts b y P_next ((low + high) / 2) then ((low + high) / 2, high, (low + high) / 2)
      else (low, (low + high) / 2, w))"
  by (simp add: bisect_step_def accepts_def Let_def)

lemma u_rent_closed:
  assumes "0 < b" "0 < y"
  shows "u_rent_of b y = (1 + b) * ln y + b * ln b - (1 + b) * ln (1 + b)"
proof -
  have 1: "y - s_rent_of b y = y / (1 + b)"
    using assms by (simp add: s_rent_of_def field_simps)
  have "u_rent_of b y = ln (y / (1 + b)) + b * ln (b * y / (1 + b))"
    by (simp add: u_rent_of_def 1) (simp add: s_rent_of_def)
  also have "\<dots> = (ln y - ln (1 + b)) + b * (ln b + ln y - ln (1 + b))"
    using assms by (simp add: ln_div ln_mult)
  finally show ?thesis by (simp add: algebra_simps)
qed

lemma u_own_interior:
  assumes "0 < b" "0 \<le> N" "N \<le> b * (y - P)" "0 < y - P + N"
  shows "s_own_of b y N P = (b * (y - P) - N) / (1 + b)"
    and "y - P - s_own_of b y N P = (y - P + N) / (1 + b)"
    and "u_own_of b y N P = (1 + b) * ln (y - P + N) + b * ln b - (1 + b) * ln (1 + b) + 1"
proof -
  show s: "s_own_of b y N P = (b * (y - P) - N) / (1 + b)"
    using assms by (simp add: s_own_of_def Let_def field_simps)
  show c: "y - P - s_own_of b y N P = (y - P + N) / (1 + b)"
    unfolding s using assms by (simp add: field_simps)
  have o: "s_own_of b y N P + N = b * (y - P + N) / (1 + b)"
    unfolding s using assms by (simp add: field_simps)
  have "u_own_of b y N P = ln ((y - P + N) / (1 + b)) + b * ln (b * (y - P + N) / (1 + b)) + 1"
    by (simp add: u_own_of_def Let_def c o ALPHA_def)
  also have "\<dots> = (ln (y - P + N) - ln (1 + b)) + b * (ln b + ln (y - P + N) - ln (1 + b)) + 1"
    using assms by (simp add: ln_div ln_mult)
  finally show "u_own_of b y N P = (1 + b) * ln (y - P + N) + b * ln b - (1 + b) * ln (1 + b) + 1"
    by (simp add: algebra_simps)
qed

text \<open>
  While the savings of the owner are not clipped, the comparison of utilities is a linear
  test: the owner accepts the price \<open>P\<close> iff \<open>y - P + P_next\<close> exceeds
  \<open>y \<times> exp (-1 / (1 + \<beta>))\<close>.
\<close>

lemma accepts_interior:
  assumes "0 < b" "0 < y" "0 \<le> N" "P < y" "N \<le> b * (y - P)"
  shows "accepts b y N P \<longleftrightarrow> y * exp (- 1 / (1 + b)) < y - P + N"
proof -
  have W: "0 < y - P + N" using assms by simp
  have "0 < (y - P + N) / (1 + b)"
    using W assms(1) by (intro divide_pos_pos) simp_all
  then have c: "\<not> y - P - s_own_of b y N P \<le> 0"
    using u_own_interior(2)[OF assms(1,3,5) W] by simp
  have "accepts b y N P \<longleftrightarrow> (1 + b) * ln y < (1 + b) * ln (y - P + N) + 1"
    using c by (simp add: accepts_def u_own_interior(3)[OF assms(1,3,5) W] u_rent_closed[OF assms(1,2)])
  also have "\<dots> \<longleftrightarrow> ln y - 1 / (1 + b) < ln (y - P + N)"
    using assms(1) by (simp add: field_simps)
  also have "\<dots> \<longleftrightarrow> exp (ln y - 1 / (1 + b)) < exp (ln (y - P + N))"
    by simp
  also have "\<dots> \<longleftrightarrow> y * exp (- 1 / (1 + b)) < y - P + N"
    using assms(2) W by (simp add: exp_diff exp_minus field_simps)
  finally show ?thesis .
qed

text \<open>
  For the discount factor \<open>0.3\<close> the threshold is \<open>exp (-10/13)\<close>; twelve terms of its
  series bound it to eight digits.
\<close>

lemma exp_minus_10_13_bounds:
  "46336936 / 10 ^ 8 < exp (- (10 / 13) :: real) \<and> exp (- (10 / 13) :: real) < 46336937 / 10 ^ 8"
proof -
  obtain t :: real where t: "\<bar>t\<bar> \<le> \<bar>- (10 / 13)\<bar>"
    and e: "exp (- (10 / 13)) = (\<Sum>m<12. (- (10 / 13)) ^ m / fact m) + (exp t / fact 12) * (- (10 / 13)) ^ 12"
    using Maclaurin_exp_le[of "- (10 / 13)" 12] by blast
  have s: "(\<Sum>m<12. (- (10 / 13) :: real) ^ m / fact m) = 5179405825959689 / 11177704377608769"
    by (simp add: lessThan_nat_numeral lessThan_Suc fact_numeral power_divide)
  define r where "r = (exp t / fact 12) * (- (10 / 13)) ^ 12"
  have "t \<le> 1" using t by simp
  then have "exp t \<le> exp 1" by simp
  then have le3: "exp t \<le> 3" using exp_le by linarith
  have pos: "0 < exp t" by simp
  have p: "(- (10 / 13) :: real) ^ 12 = 10 ^ 12 / 13 ^ 12" by (simp add: power_divide)
  have lo: "0 \<le> r"
    unfolding r_def p using pos by simp
  have "r \<le> (3 / fact 12) * (- (10 / 13)) ^ 12"
    unfolding r_def p using le3 by (intro mult_right_mono divide_right_mono) simp_all
  also have "\<dots> = 3 * 10 ^ 12 / (479001600 * 13 ^ 12)"
    unfolding p by (simp add: fact_numeral)
  finally have hi: "r \<le> 3 * 10 ^ 12 / (479001600 * 13 ^ 12)" .
  have "exp (- (10 / 13)) = 5179405825959689 / 11177704377608769 + r"
    using e s by (simp add: r_def)
  moreover have "(46336936 / 10 ^ 8 :: real) < 5179405825959689 / 11177704377608769" by simp
  moreover have "(5179405825959689 / 11177704377608769 :: real) + 3 * 10 ^ 12 / (479001600 * 13 ^ 12) < 46336937 / 10 ^ 8"
    by simp
  ultimately show ?thesis
    using lo hi by linarith
qed

lemma bisect_step_accept_53000:
  assumes "0 < y" "(low + high) / 2 < y" "53000 \<le> 3 / 10 * (y - (low + high) / 2)"
    and "y * (46336937 / 10 ^ 8) \<le> y - (low + high) / 2 + 53000"
  shows "bisect_step (3 / 10) y 53000 (low, high, w) = ((low + high) / 2, high, (low + high) / 2)"
proof -
  have "y * exp (- (10 / 13)) < y * (46336937 / 10 ^ 8)"
    using exp_minus_10_13_bounds assms(1) by (intro mult_strict_left_mono) simp_all
  then have A: "y * exp (- (10 / 13)) < y - (low + high) / 2 + 53000"
    using assms(4) by linarith
  have eq: "- 1 / (1 + 3 / 10) = (- (10 / 13) :: real)" by simp
  have "y * exp (- 1 / (1 + 3 / 10)) < y - (low + high) / 2 + 53000"
    unfolding eq by (rule A)
  then have "accepts (3 / 10) y 53000 ((low + high) / 2)"
    using accepts_interior[of "3 / 10" y 53000 "(low + high) / 2"] assms(1,2,3) by simp
  then show ?thesis by (simp add: bisect_step_accepts)
qed

lemma bisect_step_reject_53000:
  assumes "0 < y" "(low + high) / 2 < y" "53000 \<le> 3 / 10 * (y - (low + high) / 2)"
    and "y - (low + high) / 2 + 53000 \<le> y * (46336936 / 10 ^ 8)"
  shows "bisect_step (3 / 10) y 53000 (low, high, w) = (low, (low + high) / 2, w)"
proof -
  have "y * (46336936 / 10 ^ 8) < y * exp (- (10 / 13))"
    using exp_minus_10_13_bounds assms(1) by (intro mult_strict_left_mono) simp_all
  then have A: "\<not> y * exp (- (10 / 13)) < y - (low + high) / 2 + 53000"
    using assms(4) by linarith
  have eq: "- 1 / (1 + 3 / 10) = (- (10 / 13) :: real)" by simp
  have "\<not> y * exp (- 1 / (1 + 3 / 10)) < y - (low + high) / 2 + 53000"
    unfolding eq by (rule A)
  then have "\<not> accepts (3 / 10) y 53000 ((low + high) / 2)"
    using accepts_interior[of "3 / 10" y 53000 "(low + high) / 2"] assms(1,2,3) by simp
  then show ?thesis by (simp add: bisect_step_accepts)
qed

lemma wtp_1000000: "solve_wtp (3 / 10) 1000000 53000 = 301890625 / 512"
  by (simp add: solve_wtp_def eval_nat_numeral bisect_step_accept_53000 bisect_step_reject_53000)

lemma wtp_1000010: "solve_wtp (3 / 10) 1000010 53000 = 1207512075 / 2048"
  by (simp add: solve_wtp_def eval_nat_numeral bisect_step_accept_53000 bisect_step_reject_53000)

text \<open>
  Claim C6, as stated, fails. With discount factor 0.3 and next-period price 53000, the
  household with income 1000010 has the willingness to pay \<open>1207512075/2048 \<approx> 589605.51\<close>
  and the poorer household with income 1000000 has \<open>301890625/512 \<approx> 589630.13\<close>: each
  bisection searches the grid of its own income, \<open>y/2\<^sup>1\<^sup>5\<close> apart, below the same
  indifference price.
\<close>

theorem wtp_not_monotone:
  "solve_wtp 0.3 1000010 53000 < solve_wtp 0.3 1000000 53000"
  using wtp_1000000 wtp_1000010 by simp

lemma s_own_cases:
  assumes "0 < b"
  shows "(b * (y - P) < N \<and> s_own_of b y N P = 0) \<or>
         (N \<le> b * (y - P) \<and> s_own_of b y N P = (b * (y - P) - N) / (1 + b))"
proof -
  have "(b * (y - P) - N) / (1 + b) < 0 \<longleftrightarrow> b * (y - P) < N"
    using assms by (simp add: divide_less_0_iff)
  then show ?thesis by (auto simp: s_own_of_def Let_def)
qed

lemma s_own_feasible:
  assumes "0 < b" "0 \<le> N" "P < y"
  shows "0 < y - P - s_own_of b y N P" and "0 < s_own_of b y N P + N"
proof -
  have "0 < y - P - s_own_of b y N P \<and> 0 < s_own_of b y N P + N"
    using s_own_cases[OF assms(1), of y P N]
  proof (elim disjE conjE)
    assume c: "b * (y - P) < N" and s: "s_own_of b y N P = 0"
    have "0 < b * (y - P)" using assms by simp
    then have "0 < N" using c by linarith
    then show ?thesis using s assms(3) by simp
  next
    assume i: "N \<le> b * (y - P)" and s: "s_own_of b y N P = (b * (y - P) - N) / (1 + b)"
    have W: "0 < y - P + N" using assms by simp
    have 1: "y - P - s_own_of b y N P = (y - P + N) / (1 + b)"
      unfolding s using assms by (simp add: field_simps)
    have 2: "s_own_of b y N P + N = b * (y - P + N) / (1 + b)"
      unfolding s using assms by (simp add: field_simps)
    show ?thesis unfolding 1 2 using W assms(1) by simp
  qed
  then show "0 < y - P - s_own_of b y N P" and "0 < s_own_of b y N P + N" by simp_all
qed

lemma accepts_affordable: "accepts b y N P \<Longrightarrow> P < y"
  using s_own_nonneg[of b y N P] by (auto simp: accepts_def)

text \<open>
  The savings that the program computes are optimal: no other non-negative savings give
  the owner a higher utility. The proof bounds each logarithm by its tangent at the
  program's savings.
\<close>

lemma s_own_optimal:
  assumes "0 < b" "0 \<le> N" "P < y" "0 \<le> s'" "0 < y - P - s'" "0 < s' + N"
  shows "ln (y - P - s') + b * ln (s' + N) \<le>
         ln (y - P - s_own_of b y N P) + b * ln (s_own_of b y N P + N)"
proof -
  define s where "s = s_own_of b y N P"
  define a where "a = y - P"
  have c: "0 < a - s" and o: "0 < s + N"
    using s_own_feasible[OF assms(1,2,3)] by (simp_all add: s_def a_def)
  have c': "0 < a - s'" using assms(5) by (simp add: a_def)
  define D where "D = b * (a - s) - (s + N)"
  have sign: "(s' - s) * D \<le> 0"
    using s_own_cases[OF assms(1), of y P N]
  proof (elim disjE conjE)
    assume "b * (y - P) < N" "s_own_of b y N P = 0"
    then have "s = 0" "D < 0" by (simp_all add: s_def D_def a_def)
    then show ?thesis using assms(4) by (simp add: mult_nonneg_nonpos)
  next
    assume "N \<le> b * (y - P)" "s_own_of b y N P = (b * (y - P) - N) / (1 + b)"
    then have "D = 0" using assms(1) by (simp add: s_def D_def a_def field_simps)
    then show ?thesis by simp
  qed
  have 1: "ln (a - s') - ln (a - s) \<le> (s - s') / (a - s)"
  proof -
    have "ln ((a - s') / (a - s)) \<le> (a - s') / (a - s) - 1"
      using c c' by (intro ln_le_minus_one) simp
    also have "(a - s') / (a - s) - 1 = (s - s') / (a - s)"
      using c by (simp add: field_simps)
    finally show ?thesis using c c' by (simp add: ln_div)
  qed
  have 2: "ln (s' + N) - ln (s + N) \<le> (s' - s) / (s + N)"
  proof -
    have "ln ((s' + N) / (s + N)) \<le> (s' + N) / (s + N) - 1"
      using o assms(6) by (intro ln_le_minus_one) simp
    also have "(s' + N) / (s + N) - 1 = (s' - s) / (s + N)"
      using o by (simp add: field_simps)
    finally show ?thesis using o assms(6) by (simp add: ln_div)
  qed
  have "b * (ln (s' + N) - ln (s + N)) \<le> b * ((s' - s) / (s + N))"
    using 2 assms(1) by (intro mult_left_mono) simp_all
  with 1 have "(ln (a - s') - ln (a - s)) + b * (ln (s' + N) - ln (s + N))
      \<le> (s - s') / (a - s) + b * ((s' - s) / (s + N))" by linarith
  also have "\<dots> = ((s' - s) * D) / ((a - s) * (s + N))"
    using c o by (simp add: D_def field_simps)
  also have "\<dots> \<le> 0"
    using sign c o by (intro divide_nonpos_pos) simp_all
  finally show ?thesis
    by (simp add: s_def a_def algebra_simps)
qed

lemma accepts_mono_price:
  assumes "0 < b" "0 \<le> N" "accepts b y N P" "P' \<le> P"
  shows "accepts b y N P'"
proof -
  have P: "P < y" using assms(3) by (rule accepts_affordable)
  then have P': "P' < y" using assms(4) by simp
  define s where "s = s_own_of b y N P"
  have s0: "0 \<le> s" by (simp add: s_def s_own_nonneg)
  have c: "0 < y - P - s" and o: "0 < s + N"
    using s_own_feasible[OF assms(1,2) P] by (simp_all add: s_def)
  have c': "0 < y - P' - s" using c assms(4) by simp
  have "u_own_of b y N P = ln (y - P - s) + b * ln (s + N) + 1"
    by (simp add: u_own_of_def Let_def s_def ALPHA_def)
  also have "\<dots> \<le> ln (y - P' - s) + b * ln (s + N) + 1"
    using c c' assms(4) by simp
  also have "\<dots> \<le> ln (y - P' - s_own_of b y N P') + b * ln (s_own_of b y N P' + N) + 1"
    using s_own_optimal[OF assms(1,2) P' s0 c' o] by simp
  also have "\<dots> = u_own_of b y N P'"
    by (simp add: u_own_of_def Let_def ALPHA_def)
  finally have "u_own_of b y N P \<le> u_own_of b y N P'" .
  moreover have "u_rent_of b y < u_own_of b y N P" using assms(3) by (simp add: accepts_def)
  ultimately show ?thesis
    using s_own_feasible(1)[OF assms(1,2) P'] by (simp add: accepts_def)
qed

lemma u_own_value:
  "u_own_of b y N P = ln (y - P - s_own_of b y N P) + b * ln (s_own_of b y N P + N) + 1"
  by (simp add: u_own_of_def Let_def ALPHA_def)

lemma u_own_lower:
  assumes "0 < b" "0 \<le> N" "P < y" "0 \<le> s'" "0 < c" "0 < d" "c \<le> y - P - s'" "d \<le> s' + N"
  shows "ln c + b * ln d + 1 \<le> u_own_of b y N P"
proof -
  have "ln c \<le> ln (y - P - s')" using assms(5,7) by simp
  moreover have "b * ln d \<le> b * ln (s' + N)"
    using assms(1,6,8) by (intro mult_left_mono) simp_all
  moreover have "ln (y - P - s') + b * ln (s' + N) \<le>
         ln (y - P - s_own_of b y N P) + b * ln (s_own_of b y N P + N)"
    using assms by (intro s_own_optimal) simp_all
  ultimately show ?thesis unfolding u_own_value by linarith
qed

lemma accepts_mono_income:
  assumes b: "0 < b" and N: "0 \<le> N" and y2: "0 < y2" and y12: "y2 \<le> y1"
    and acc: "accepts b y2 N P"
  shows "accepts b y1 N P"
proof -
  have P2: "P < y2" using acc by (rule accepts_affordable)
  then have P1: "P < y1" using y12 by simp
  have y1: "0 < y1" using y2 y12 by simp
  define K where "K = b * ln b - (1 + b) * ln (1 + b)"
  have r1: "u_rent_of b y1 = (1 + b) * ln y1 + K"
    using u_rent_closed[OF b y1] by (simp add: K_def)
  have r2: "u_rent_of b y2 = (1 + b) * ln y2 + K"
    using u_rent_closed[OF b y2] by (simp add: K_def)
  define s2 where "s2 = s_own_of b y2 N P"
  have s2: "0 \<le> s2" by (simp add: s2_def s_own_nonneg)
  have c2: "0 < y2 - P - s2" and o2: "0 < s2 + N"
    using s_own_feasible[OF b N P2] by (simp_all add: s2_def)
  have u2: "(1 + b) * ln y2 + K < ln (y2 - P - s2) + b * ln (s2 + N) + 1"
    using acc by (simp add: accepts_def r2 u_own_value s2_def)
  have "u_rent_of b y1 < u_own_of b y1 N P"
  proof (cases "N \<le> P")
    case True
    define l where "l = y1 / y2"
    have l: "1 \<le> l" "0 < l" using y2 y12 by (simp_all add: l_def)
    have yl: "y1 = l * y2" using y2 by (simp add: l_def)
    define s' where "s' = l * s2 + (l - 1) * N"
    have s': "0 \<le> s'" using l s2 N by (simp add: s'_def)
    have o': "l * (s2 + N) \<le> s' + N" by (simp add: s'_def algebra_simps)
    have "0 \<le> (l - 1) * (P - N)" using l True by simp
    also have "(l - 1) * (P - N) = (y1 - P - s') - l * (y2 - P - s2)"
      by (simp add: s'_def yl algebra_simps)
    finally have c': "l * (y2 - P - s2) \<le> y1 - P - s'" by simp
    have "ln (l * (y2 - P - s2)) + b * ln (l * (s2 + N)) + 1 \<le> u_own_of b y1 N P"
      using b N P1 s' _ _ c' o'
    proof (rule u_own_lower)
      show "0 < l * (y2 - P - s2)" using l c2 by simp
      show "0 < l * (s2 + N)" using l o2 by simp
    qed
    moreover have "ln (l * (y2 - P - s2)) = ln l + ln (y2 - P - s2)"
      using l c2 by (simp add: ln_mult)
    moreover have "ln (l * (s2 + N)) = ln l + ln (s2 + N)"
      using l o2 by (simp add: ln_mult)
    moreover have "ln y1 = ln l + ln y2"
      unfolding yl using l y2 by (simp add: ln_mult)
    ultimately show ?thesis
      using u2 unfolding r1 by (simp add: algebra_simps)
  next
    case False
    then have PN: "P < N" by simp
    show ?thesis
    proof (cases "(1 + b) * P \<le> b * y1")
      case True
      have cy: "0 < y1 / (1 + b)" and co: "0 < b * y1 / (1 + b)"
        using b y1 by simp_all
      have Pb: "P \<le> b * y1 / (1 + b)"
        using True b by (simp add: field_simps)
      have split: "y1 - b * y1 / (1 + b) = y1 / (1 + b)"
        using b by (simp add: field_simps)
      define s' where "s' = max 0 (b * y1 / (1 + b) - N)"
      have s': "0 \<le> s'" by (simp add: s'_def)
      have o': "b * y1 / (1 + b) \<le> s' + N" by (simp add: s'_def max_def)
      have c': "y1 / (1 + b) \<le> y1 - P - s'"
      proof (cases "N \<le> b * y1 / (1 + b)")
        case True
        then have "s' = b * y1 / (1 + b) - N" by (simp add: s'_def max_def)
        then show ?thesis using PN split by simp
      next
        case False
        then have "s' = 0" by (simp add: s'_def max_def)
        then show ?thesis using Pb split by simp
      qed
      have "ln (y1 / (1 + b)) + b * ln (b * y1 / (1 + b)) + 1 \<le> u_own_of b y1 N P"
        using b N P1 s' cy co c' o' by (rule u_own_lower)
      moreover have "u_rent_of b y1 = ln (y1 / (1 + b)) + b * ln (b * y1 / (1 + b))"
        by (simp add: u_rent_of_def s_rent_of_def split)
      ultimately show ?thesis by simp
    next
      case False
      then have 1: "b * y1 < (1 + b) * P" by simp
      have "b * y2 \<le> b * y1" using b y12 by simp
      then have 2: "b * y2 < (1 + b) * P" using 1 by linarith
      have cl1: "b * (y1 - P) < N" using 1 PN by (simp add: algebra_simps)
      have cl2: "b * (y2 - P) < N" using 2 PN by (simp add: algebra_simps)
      have z1: "s_own_of b y1 N P = 0" using s_own_cases[OF b, of y1 P N] cl1 by auto
      have z2: "s2 = 0" using s_own_cases[OF b, of y2 P N] cl2 by (auto simp: s2_def)
      have Npos: "0 < N" using o2 z2 by simp
      have d1: "0 < y1 - P" and d2: "0 < y2 - P" using P1 P2 by simp_all
      have "ln ((y2 - P) * y1 / ((y1 - P) * y2)) \<le> (y2 - P) * y1 / ((y1 - P) * y2) - 1"
        using d1 d2 y1 y2 by (intro ln_le_minus_one) simp
      moreover have "ln ((y2 - P) * y1 / ((y1 - P) * y2)) = ln (y2 - P) + ln y1 - ln (y1 - P) - ln y2"
        using d1 d2 y1 y2 by (simp add: ln_div ln_mult)
      moreover have "ln (y1 / y2) \<le> y1 / y2 - 1"
        using y1 y2 by (intro ln_le_minus_one) simp
      then have "b * ln (y1 / y2) \<le> b * (y1 / y2 - 1)"
        using b by (intro mult_left_mono) simp_all
      moreover have "ln (y1 / y2) = ln y1 - ln y2"
        using y1 y2 by (simp add: ln_div)
      moreover have "(y2 - P) * y1 / ((y1 - P) * y2) - 1 + b * (y1 / y2 - 1) =
          (y1 - y2) * (b * y1 - (1 + b) * P) / (y2 * (y1 - P))"
        using d1 y2 by (simp add: field_simps)
      moreover have "(y1 - y2) * (b * y1 - (1 + b) * P) / (y2 * (y1 - P)) \<le> 0"
        using 1 y12 y2 d1 by (intro divide_nonpos_pos mult_nonneg_nonpos) simp_all
      ultimately have key: "ln (y2 - P) - (1 + b) * ln y2 \<le> ln (y1 - P) - (1 + b) * ln y1"
        by (simp add: algebra_simps)
      have "(1 + b) * ln y2 + K < ln (y2 - P) + b * ln N + 1"
        using u2 z2 by simp
      with key have "(1 + b) * ln y1 + K < ln (y1 - P) + b * ln N + 1" by linarith
      then show ?thesis by (simp add: r1 u_own_value z1)
    qed
  qed
  then show ?thesis
    using s_own_feasible(1)[OF b N P1] by (simp add: accepts_def)
qed

lemma bracket_inv_step:
  assumes "0 \<le> y" "bracket_inv b y N n st"
  shows "bracket_inv b y N (Suc n) (bisect_step b y N st)"
proof -
  obtain low high w where st: "st = (low, high, w)" by (cases st)
  have inv: "w = low" "0 \<le> low" "high \<le> y" "high - low = y / 2 ^ n"
    "low = 0 \<or> accepts b y N low" "high = y \<or> \<not> accepts b y N high"
    using assms(2) by (simp_all add: st bracket_inv_def)
  have "0 \<le> y / 2 ^ n" using assms(1) by simp
  then have lh: "low \<le> high" using inv(4) by linarith
  have half: "high - (low + high) / 2 = y / 2 ^ Suc n" "(low + high) / 2 - low = y / 2 ^ Suc n"
    using inv(4) by (simp_all add: field_simps)
  show ?thesis
  proof (cases "accepts b y N ((low + high) / 2)")
    case True
    then show ?thesis
      using inv lh half by (simp add: st bisect_step_accepts bracket_inv_def)
  next
    case False
    then show ?thesis
      using inv lh half by (simp add: st bisect_step_accepts bracket_inv_def)
  qed
qed

lemma bracket_inv_loop:
  assumes "0 \<le> y" "bracket_inv b y N k st"
  shows "bracket_inv b y N (k + n) (bisect_loop n b y N st)"
  using assms(2)
proof (induction n arbitrary: k st)
  case 0
  then show ?case by simp
next
  case (Suc n)
  have "bracket_inv b y N (Suc k) (bisect_step b y N st)"
    using assms(1) Suc.prems by (rule bracket_inv_step)
  then have "bracket_inv b y N (Suc k + n) (bisect_loop n b y N (bisect_step b y N st))"
    by (rule Suc.IH)
  then show ?case by simp
qed

lemma bracket_inv_final:
  assumes "0 \<le> y"
  shows "bracket_inv b y N 15 (bisect_loop 15 b y N (0, y, 0))"
proof -
  have "bracket_inv b y N 0 (0, y, 0)" by (simp add: bracket_inv_def)
  then have "bracket_inv b y N (0 + 15) (bisect_loop 15 b y N (0, y, 0))"
    using assms by (intro bracket_inv_loop)
  then show ?thesis by simp
qed

text \<open>
  Claim C6, amended. For two households of the same period with incomes \<open>y1 \<ge> y2 > 0\<close>,
  the same non-negative next-period price and the same discount factor \<open>\<beta> > 0\<close>, the
  willingness to pay of the richer household is above that of the poorer one less one
  step of the richer household's bisection grid: \<open>WTP(y1) > WTP(y2) - y1 / 2\<^sup>1\<^sup>5\<close>.
\<close>

theorem wtp_monotone_up_to_grid:
  assumes "0 < b" "0 \<le> P_next" "0 < y2" "y2 \<le> y1"
  shows "solve_wtp b y2 P_next - y1 / 2 ^ 15 < solve_wtp b y1 P_next"
proof -
  obtain l1 h1 w1 where st1: "bisect_loop 15 b y1 P_next (0, y1, 0) = (l1, h1, w1)"
    by (cases "bisect_loop 15 b y1 P_next (0, y1, 0)")
  obtain l2 h2 w2 where st2: "bisect_loop 15 b y2 P_next (0, y2, 0) = (l2, h2, w2)"
    by (cases "bisect_loop 15 b y2 P_next (0, y2, 0)")
  have y1: "0 < y1" using assms(3,4) by simp
  have i1: "w1 = l1" "0 \<le> l1" "h1 - l1 = y1 / 2 ^ 15" "h1 = y1 \<or> \<not> accepts b y1 P_next h1"
    using bracket_inv_final[of y1 b P_next] y1 by (simp_all add: st1 bracket_inv_def)
  have i2: "w2 = l2" "l2 = 0 \<or> accepts b y2 P_next l2"
    using bracket_inv_final[of y2 b P_next] assms(3) by (simp_all add: st2 bracket_inv_def)
  have "l2 < h1"
  proof (cases "l2 = 0")
    case True
    have "0 < y1 / 2 ^ 15" using y1 by simp
    then show ?thesis using True i1(2,3) by linarith
  next
    case False
    then have a2: "accepts b y2 P_next l2" using i2(2) by simp
    then have a1: "accepts b y1 P_next l2"
      using assms by (intro accepts_mono_income[of b P_next y2 y1]) simp_all
    have "l2 < y2" using a2 by (rule accepts_affordable)
    show ?thesis
    proof (cases "h1 = y1")
      case True
      then show ?thesis using \<open>l2 < y2\<close> assms(4) by simp
    next
      case False
      then have n1: "\<not> accepts b y1 P_next h1" using i1(4) by simp
      show ?thesis
      proof (rule ccontr)
        assume "\<not> l2 < h1"
        then have "h1 \<le> l2" by simp
        then have "accepts b y1 P_next h1"
          using accepts_mono_price[OF assms(1,2) a1] by simp
        then show False using n1 by simp
      qed
    qed
  qed
  then show ?thesis
    using i1(1,3) i2(1) by (simp add: solve_wtp_def st1 st2)
qed

theorem wtp_monotone_up_to_grid_witness:
  "(0::real) < 0.3 \<and> (0::real) \<le> 53000 \<and> (0::real) < 1000000 \<and> (1000000::real) \<le> 1000010 \<and>
   solve_wtp 0.3 1000000 53000 - 1000010 / 2 ^ 15 < solve_wtp 0.3 1000010 53000"
  using wtp_monotone_up_to_grid[of "0.3" 53000 1000000 1000010] by simp

section \<open>The clearing price\<close>

lemma length_sort_desc: "length (sort_desc xs) = length xs"
  by (simp add: sort_desc_def)

lemma set_sort_desc: "set (sort_desc xs) = set xs"
  by (simp add: sort_desc_def)

lemma sort_desc_antimono:
  assumes "i \<le> j" "j < length xs"
  shows "sort_desc xs ! j \<le> sort_desc xs ! i"
proof -
  have "sorted (map uminus (sort_desc xs))"
    by (simp add: sort_desc_def)
  then have "map uminus (sort_desc xs) ! i \<le> map uminus (sort_desc xs) ! j"
    using assms by (simp add: sorted_iff_nth_mono length_sort_desc del: sorted_map)
  then show ?thesis using assms by (simp add: length_sort_desc)
qed

lemma clearing_price_eq:
  "clearing_price k wtps =
     (if k \<le> 0 then 0 else sort_desc wtps ! (nat (min k (int (length wtps))) - 1))"
proof -
  have "nat (int (length wtps) - 1) = length wtps - 1" by simp
  moreover have "0 < k \<Longrightarrow> nat (k - 1) = nat k - 1" by simp
  ultimately show ?thesis
    by (simp add: clearing_price_def Let_def length_sort_desc min_def del: of_nat_diff)
qed

lemma clearing_price_mem:
  assumes "0 < k" "wtps \<noteq> []"
  shows "clearing_price k wtps \<in> set wtps"
proof -
  have "nat (min k (int (length wtps))) - 1 < length (sort_desc wtps)"
    using assms by (cases wtps) (auto simp: length_sort_desc min_def)
  then have "sort_desc wtps ! (nat (min k (int (length wtps))) - 1) \<in> set (sort_desc wtps)"
    by (rule nth_mem)
  then show ?thesis using assms by (simp add: clearing_price_eq set_sort_desc)
qed

lemma clearing_price_nonneg:
  assumes "\<And>w. w \<in> set wtps \<Longrightarrow> 0 \<le> w" "wtps \<noteq> []"
  shows "0 \<le> clearing_price k wtps"
  using clearing_price_mem[of k wtps] assms by (cases "0 < k") (auto simp: clearing_price_eq)

lemma clearing_price_antimono:
  assumes "0 < k1" "k1 \<le> k2"
  shows "clearing_price k2 wtps \<le> clearing_price k1 wtps"
proof (cases "wtps = []")
  case True
  then show ?thesis using assms by (simp add: clearing_price_eq)
next
  case False
  let ?i = "nat (min k1 (int (length wtps))) - 1"
  let ?j = "nat (min k2 (int (length wtps))) - 1"
  have "?i \<le> ?j" using assms by (auto simp: min_def)
  moreover have "?j < length wtps" using assms False by (cases wtps) (auto simp: min_def)
  ultimately have "sort_desc wtps ! ?j \<le> sort_desc wtps ! ?i" by (rule sort_desc_antimono)
  then show ?thesis using assms by (simp add: clearing_price_eq)
qed

lemma housesAvailable_le: "housesAvailable H N \<le> int AGENTS_COUNT"
proof -
  have "min 1 (H / N) * real AGENTS_COUNT \<le> real AGENTS_COUNT"
    by (simp add: AGENTS_COUNT_def)
  then have "\<lfloor>min 1 (H / N) * real AGENTS_COUNT\<rfloor> \<le> \<lfloor>real AGENTS_COUNT\<rfloor>"
    by (rule floor_mono)
  then show ?thesis by (simp add: housesAvailable_def Let_def)
qed

lemma housesAvailable_pos_population:
  "N \<noteq> 0 \<Longrightarrow> housesAvailable H N = \<lfloor>min 1 (H / N) * real AGENTS_COUNT\<rfloor>"
  by (simp add: housesAvailable_def Let_def)

lemma housesAvailable_mono:
  assumes "0 < N" "H1 \<le> H2"
  shows "housesAvailable H1 N \<le> housesAvailable H2 N"
proof -
  have "H1 / N \<le> H2 / N" using assms by (simp add: divide_right_mono)
  then have "min 1 (H1 / N) * real AGENTS_COUNT \<le> min 1 (H2 / N) * real AGENTS_COUNT"
    by (intro mult_right_mono) (auto simp: min_def)
  then show ?thesis using assms(1) by (simp add: housesAvailable_pos_population floor_mono)
qed

lemma sort_key_replicate: "sort_key f (replicate n x) = replicate n x"
  by (induction n) (simp_all add: insort_is_Cons)

text \<open>
  Claim C7, as stated, fails where the number of units goes from none to one: with a
  population of 1000 and every willingness to pay equal to 1, a stock of one half gives
  no unit and the price 0, and the larger stock of 1 gives one unit and the price 1.
\<close>

theorem clearing_price_stock_counterexample:
  "\<not> clearing_price (housesAvailable 1 1000) (replicate 1000 1)
      \<le> clearing_price (housesAvailable (1 / 2) 1000) (replicate 1000 1)"
  by (simp add: clearing_price_def housesAvailable_def AGENTS_COUNT_def sort_desc_def
      sort_key_replicate)

text \<open>
  Claim C7, amended. For a fixed list of willingness-to-pay values and a fixed positive
  population, if the housing stock strictly increases and the smaller stock already
  gives at least one unit, the clearing price does not increase.
\<close>

theorem clearing_price_monotone_in_stock:
  assumes "0 < N" "H1 < H2" "0 < housesAvailable H1 N"
  shows "clearing_price (housesAvailable H2 N) wtps \<le> clearing_price (housesAvailable H1 N) wtps"
  using assms housesAvailable_mono[of N H1 H2] by (intro clearing_price_antimono) auto

theorem clearing_price_monotone_in_stock_witness:
  "0 < (1000::real) \<and> (1::real) < 2 \<and> 0 < housesAvailable 1 1000 \<and>
   clearing_price (housesAvailable 2 1000) [3, 1, 2] \<le> clearing_price (housesAvailable 1 1000) [3, 1, 2]"
  using clearing_price_monotone_in_stock[of 1000 1 2 "[3, 1, 2]"]
  by (simp add: housesAvailable_def AGENTS_COUNT_def)

section \<open>The final allocation\<close>

lemma ownerCount_allocate_agent:
  "ownerCount (allocate_agent b P_t P_next agents k i acc) =
     ownerCount acc + (if int i < k then 1 else 0)"
  by (simp add: allocate_agent_def Let_def)

lemma ownerCount_fold:
  "ownerCount (fold (allocate_agent b P_t P_next agents k) [0..<n] acc) =
     ownerCount acc + nat (min (int n) k)"
  by (induction n) (auto simp: ownerCount_allocate_agent)

lemma ownerCount_allocation:
  "ownerCount (allocation params prods prices t) =
     nat (housesAvailable (H_at params t) (N_at params t))"
  using housesAvailable_le[of "H_at params t" "N_at params t"]
  by (simp add: allocation_def Let_def ownerCount_fold totals0_def min_def)

text \<open>
  Claim C8. In a period with positive population and non-negative housing stock, the
  count of owners never exceeds \<open>\<lfloor>min(1, H_t/N_t) \<times> 1000\<rfloor>\<close> (it equals it), and it never
  exceeds the size of the cross-section; the ownership rate of the record is this count
  over the size of the cross-section.
\<close>

theorem owner_count_bounded:
  assumes "0 < N_at params t" and "0 \<le> H_at params t"
  shows "int (ownerCount (allocation params prods prices t)) \<le>
           \<lfloor>min 1 (H_at params t / N_at params t) * real AGENTS_COUNT\<rfloor> \<and>
         int (ownerCount (allocation params prods prices t)) =
           \<lfloor>min 1 (H_at params t / N_at params t) * real AGENTS_COUNT\<rfloor> \<and>
         ownerCount (allocation params prods prices t) \<le> AGENTS_COUNT \<and>
         ownershipRate (generation_result params prods prices t) =
           real (ownerCount (allocation params prods prices t)) / real AGENTS_COUNT"
proof -
  let ?k = "housesAvailable (H_at params t) (N_at params t)"
  have k: "?k = \<lfloor>min 1 (H_at params t / N_at params t) * real AGENTS_COUNT\<rfloor>"
    using assms(1) by (simp add: housesAvailable_pos_population)
  have "0 \<le> H_at params t / N_at params t"
    using assms by simp
  then have "0 \<le> min 1 (H_at params t / N_at params t) * real AGENTS_COUNT"
    by (simp add: min_def)
  then have "0 \<le> \<lfloor>min 1 (H_at params t / N_at params t) * real AGENTS_COUNT\<rfloor>"
    by simp
  then have nn: "0 \<le> ?k" by (simp only: k)
  have le: "nat ?k \<le> AGENTS_COUNT"
    using housesAvailable_le[of "H_at params t" "N_at params t"] by linarith
  have "int (ownerCount (allocation params prods prices t)) = ?k"
    using nn by (simp add: ownerCount_allocation)
  then have "int (ownerCount (allocation params prods prices t)) =
      \<lfloor>min 1 (H_at params t / N_at params t) * real AGENTS_COUNT\<rfloor>"
    by (simp only: k)
  moreover have "ownerCount (allocation params prods prices t) \<le> AGENTS_COUNT"
    using le by (simp add: ownerCount_allocation)
  moreover have "ownershipRate (generation_result params prods prices t) =
           real (ownerCount (allocation params prods prices t)) / real AGENTS_COUNT"
    by (simp add: generation_result_def Let_def)
  ultimately show ?thesis by simp
qed

theorem owner_count_bounded_witness:
  "0 < N_at DEFAULT_PARAMS 1 \<and> 0 \<le> H_at DEFAULT_PARAMS 1 \<and>
   \<lfloor>min 1 (H_at DEFAULT_PARAMS 1 / N_at DEFAULT_PARAMS 1) * real AGENTS_COUNT\<rfloor> = 840 \<and>
   int (ownerCount (allocation DEFAULT_PARAMS (productivities DEFAULT_PARAMS)
          (solve_prices DEFAULT_PARAMS) 1)) \<le> 840"
proof -
  have N: "0 < N_at DEFAULT_PARAMS 1" by (simp add: N_at_def DEFAULT_PARAMS_def)
  have H: "0 \<le> H_at DEFAULT_PARAMS 1" by (simp add: H_at_def DEFAULT_PARAMS_def)
  have k: "\<lfloor>min 1 (H_at DEFAULT_PARAMS 1 / N_at DEFAULT_PARAMS 1) * real AGENTS_COUNT\<rfloor> = 840"
    by (simp add: H_at_def N_at_def DEFAULT_PARAMS_def AGENTS_COUNT_def)
  show ?thesis
    using owner_count_bounded[OF N H, of "productivities DEFAULT_PARAMS" "solve_prices DEFAULT_PARAMS"] N H k
    by simp
qed

text \<open>
  Claim C9. In the record of a reported period, the mean utility of owners is the
  not-applicable value when the period has no owner, and the mean utility of renters is
  the not-applicable value when the period has no renter: the division is not made.
\<close>

theorem empty_tenure_group_is_not_applicable:
  assumes "t < 3"
  shows "(ownerCount (allocation params (productivities params) (solve_prices params) t) = 0
            \<longrightarrow> avgUtilityOwners (simulate params ! t) = None) \<and>
         (ownerCount (allocation params (productivities params) (solve_prices params) t) = AGENTS_COUNT
            \<longrightarrow> avgUtilityRenters (simulate params ! t) = None)"
  using assms by (simp add: simulate_nth generation_result_def Let_def)

theorem empty_tenure_group_witness:
  "avgUtilityOwners (simulate (DEFAULT_PARAMS\<lparr>initialHousing := 1 / 2\<rparr>) ! 0) = None \<and>
   avgUtilityRenters (simulate DEFAULT_PARAMS ! 0) = None"
proof -
  have "ownerCount (allocation (DEFAULT_PARAMS\<lparr>initialHousing := 1 / 2\<rparr>)
          (productivities (DEFAULT_PARAMS\<lparr>initialHousing := 1 / 2\<rparr>))
          (solve_prices (DEFAULT_PARAMS\<lparr>initialHousing := 1 / 2\<rparr>)) 0) = 0"
    by (simp add: ownerCount_allocation)
       (simp add: housesAvailable_def H_at_def N_at_def DEFAULT_PARAMS_def AGENTS_COUNT_def)
  moreover have "ownerCount (allocation DEFAULT_PARAMS (productivities DEFAULT_PARAMS)
          (solve_prices DEFAULT_PARAMS) 0) = AGENTS_COUNT"
    by (simp add: ownerCount_allocation)
       (simp add: housesAvailable_def H_at_def N_at_def DEFAULT_PARAMS_def AGENTS_COUNT_def)
  ultimately show ?thesis
    using empty_tenure_group_is_not_applicable[of 0 "DEFAULT_PARAMS\<lparr>initialHousing := 1 / 2\<rparr>"]
      empty_tenure_group_is_not_applicable[of 0 DEFAULT_PARAMS]
    by simp
qed

section \<open>The reported price\<close>


lemma period_wtps_nonneg: "w \<in> set (period_wtps params prods t P_next) \<Longrightarrow> 0 \<le> w"
  by (auto simp: period_wtps_def solve_wtp_nonneg)

lemma length_period_wtps: "length (period_wtps params prods t P_next) = length prods"
  by (simp add: period_wtps_def)

lemma proposed_price_nonneg:
  assumes "prods \<noteq> []"
  shows "0 \<le> proposed_price params prods prices t"
  unfolding proposed_price_def
  by (rule clearing_price_nonneg) (use assms in \<open>auto simp: period_wtps_nonneg\<close>, simp add: period_wtps_def)

lemma price_iteration_lower:
  assumes "length prices = SIMULATION_STEPS" "prods \<noteq> []" "t < 9"
  shows "prices ! t / 2 \<le> fst (price_iteration params prods prices) ! t"
  using assms(3) proposed_price_nonneg[OF assms(2), of params prices t]
  by (simp add: price_iteration_eq[OF assms(1)] nth_append)

lemma price_loop_lower:
  assumes "length prices = SIMULATION_STEPS" "prods \<noteq> []" "\<And>t. t < 9 \<Longrightarrow> 0 \<le> prices ! t" "t < 9"
  shows "prices ! t / 2 ^ n \<le> price_loop n params prods prices ! t"
  using assms
proof (induction n arbitrary: prices)
  case 0
  then show ?case by simp
next
  case (Suc n)
  obtain np d where it: "price_iteration params prods prices = (np, d)"
    by (cases "price_iteration params prods prices")
  have len: "length np = SIMULATION_STEPS"
    using length_price_iteration[OF Suc.prems(1), of params prods] by (simp add: it)
  have low: "\<And>s. s < 9 \<Longrightarrow> prices ! s / 2 \<le> np ! s"
    using price_iteration_lower[OF Suc.prems(1,2), of _ params] by (simp add: it)
  have nn: "\<And>s. s < 9 \<Longrightarrow> 0 \<le> np ! s"
  proof -
    fix s :: nat assume s: "s < 9"
    have "0 \<le> prices ! s / 2" using Suc.prems(3)[OF s] by simp
    then show "0 \<le> np ! s" using low[OF s] by linarith
  qed
  have a: "prices ! t / 2 ^ Suc n \<le> np ! t / 2 ^ n"
    using low[OF Suc.prems(4)] by (simp add: field_simps)
  have b: "np ! t / 2 ^ n \<le> price_loop n params prods np ! t"
    using Suc.IH[OF len Suc.prems(2) nn Suc.prems(4)] by simp
  have c: "prices ! t / 2 ^ Suc n \<le> np ! t"
  proof -
    have "np ! t * 1 \<le> np ! t * 2 ^ n"
      using nn[OF Suc.prems(4)] by (intro mult_left_mono) simp_all
    then have "np ! t / 2 ^ n \<le> np ! t"
      by (simp add: field_simps)
    then show ?thesis using a by linarith
  qed
  show ?case using a b c by (simp add: it)
qed

lemma solve_prices_lower:
  assumes "0 \<le> initialTech params * initialPop params" "t < 9"
  shows "initialTech params * initialPop params * 0.1 / 2 ^ 20 \<le> solve_prices params ! t"
proof -
  have "initial_prices params ! t / 2 ^ MAX_ITER \<le> price_loop MAX_ITER params (productivities params) (initial_prices params) ! t"
  proof (rule price_loop_lower)
    show "length (initial_prices params) = SIMULATION_STEPS" by (simp add: initial_prices_def)
    show "productivities params \<noteq> []" using length_productivities[of params] by (auto simp: AGENTS_COUNT_def)
    show "\<And>t. t < 9 \<Longrightarrow> 0 \<le> initial_prices params ! t"
      using assms(1) by (simp add: initial_prices_def SIMULATION_STEPS_def)
    show "t < 9" by fact
  qed
  then show ?thesis using assms(2) by (simp add: solve_prices_def initial_prices_def SIMULATION_STEPS_def MAX_ITER_def)
qed

lemma housePrice_generation_result: "housePrice (generation_result params prods prices t) = prices ! t"
  by (simp add: generation_result_def Let_def)

text \<open>
  Claim C1, as stated, fails. With the default parameters and a housing stock of one half
  no unit is available in period 0, so the rule of the claim gives the price 0; the
  record of period 0 carries a price above 238, the seed \<open>2.5 \<times> 10\<^sup>8\<close> halved in each of
  the iterations of the price loop.
\<close>

theorem house_price_counterexample:
  "housesAvailable (H_at (DEFAULT_PARAMS\<lparr>initialHousing := 1 / 2\<rparr>) 0)
       (N_at (DEFAULT_PARAMS\<lparr>initialHousing := 1 / 2\<rparr>) 0) = 0 \<and>
   238 < housePrice (simulate (DEFAULT_PARAMS\<lparr>initialHousing := 1 / 2\<rparr>) ! 0) \<and>
   housePrice (simulate (DEFAULT_PARAMS\<lparr>initialHousing := 1 / 2\<rparr>) ! 0) \<noteq>
     clearing_price
       (housesAvailable (H_at (DEFAULT_PARAMS\<lparr>initialHousing := 1 / 2\<rparr>) 0)
          (N_at (DEFAULT_PARAMS\<lparr>initialHousing := 1 / 2\<rparr>) 0))
       (map wtp (make_agents (DEFAULT_PARAMS\<lparr>initialHousing := 1 / 2\<rparr>)
          (productivities (DEFAULT_PARAMS\<lparr>initialHousing := 1 / 2\<rparr>)) 0
          (solve_prices (DEFAULT_PARAMS\<lparr>initialHousing := 1 / 2\<rparr>) ! 1)))"
proof -
  let ?p = "DEFAULT_PARAMS\<lparr>initialHousing := 1 / 2\<rparr>"
  have k: "housesAvailable (H_at ?p 0) (N_at ?p 0) = 0"
    by (simp add: housesAvailable_def H_at_def N_at_def DEFAULT_PARAMS_def AGENTS_COUNT_def)
  have "initialTech ?p * initialPop ?p * 0.1 / 2 ^ 20 \<le> solve_prices ?p ! 0"
    by (rule solve_prices_lower) (simp_all add: DEFAULT_PARAMS_def)
  then have "238 < solve_prices ?p ! 0" by (simp add: DEFAULT_PARAMS_def)
  then have h: "238 < housePrice (simulate ?p ! 0)"
    by (simp add: simulate_nth housePrice_generation_result)
  have "clearing_price (housesAvailable (H_at ?p 0) (N_at ?p 0))
       (map wtp (make_agents ?p (productivities ?p) 0 (solve_prices ?p ! 1))) = 0"
    unfolding k by (simp add: clearing_price_def)
  with k h show ?thesis by simp
qed

text \<open>
  Claim C1, amended. The price of the record of a reported period \<open>t\<close> is entry \<open>t\<close> of
  the price path that the solver returns, a damped average and not a willingness to pay
  recomputed by the final allocation; it is non-negative when the seed
  \<open>initialTech \<times> initialPop\<close> is. It is the clearing price proposed inside an iteration of
  the solver that follows the rank rule: it is non-negative, it is 0 when no unit is
  available, and otherwise it is the willingness to pay ranked at position
  \<open>min(k, 1000)\<close> in descending order (the lowest for \<open>k \<ge> 1000\<close>), an element of the
  willingness-to-pay list of the period.
\<close>

theorem house_price_is_path_entry:
  assumes "t < 3" and "0 \<le> initialTech params * initialPop params"
  shows "housePrice (simulate params ! t) = solve_prices params ! t \<and>
         0 \<le> housePrice (simulate params ! t) \<and>
         0 \<le> proposed_price params (productivities params) prices t \<and>
         proposed_price params (productivities params) prices t =
           (if housesAvailable (H_at params t) (N_at params t) \<le> 0 then 0
            else sort_desc (period_wtps params (productivities params) t (prices ! (t + 1))) !
                   (nat (min (housesAvailable (H_at params t) (N_at params t)) 1000) - 1)) \<and>
         (0 < housesAvailable (H_at params t) (N_at params t) \<longrightarrow>
            proposed_price params (productivities params) prices t
              \<in> set (period_wtps params (productivities params) t (prices ! (t + 1))))"
proof -
  have ne: "productivities params \<noteq> []"
    using length_productivities[of params] by (auto simp: AGENTS_COUNT_def)
  have len: "length (productivities params) = 1000"
    using length_productivities[of params] by (simp add: AGENTS_COUNT_def)
  have "initialTech params * initialPop params * 0.1 / 2 ^ 20 \<le> solve_prices params ! t"
    using assms by (intro solve_prices_lower) simp_all
  moreover have "0 \<le> initialTech params * initialPop params * 0.1 / 2 ^ 20"
    using assms(2) by simp
  ultimately have "0 \<le> solve_prices params ! t" by linarith
  moreover have "0 < housesAvailable (H_at params t) (N_at params t) \<Longrightarrow>
            proposed_price params (productivities params) prices t
              \<in> set (period_wtps params (productivities params) t (prices ! (t + 1)))"
    unfolding proposed_price_def using ne by (intro clearing_price_mem) (auto simp: period_wtps_def)
  ultimately show ?thesis
    using assms(1) proposed_price_nonneg[OF ne, of params prices t]
    by (simp add: simulate_nth housePrice_generation_result)
       (simp add: proposed_price_def clearing_price_eq length_period_wtps len)
qed

theorem house_price_is_path_entry_witness:
  "(0::nat) < 3 \<and> 0 \<le> initialTech DEFAULT_PARAMS * initialPop DEFAULT_PARAMS \<and>
   housePrice (simulate DEFAULT_PARAMS ! 0) = solve_prices DEFAULT_PARAMS ! 0 \<and>
   0 \<le> housePrice (simulate DEFAULT_PARAMS ! 0) \<and>
   0 < housesAvailable (H_at DEFAULT_PARAMS 0) (N_at DEFAULT_PARAMS 0) \<and>
   proposed_price DEFAULT_PARAMS (productivities DEFAULT_PARAMS) (initial_prices DEFAULT_PARAMS) 0
     \<in> set (period_wtps DEFAULT_PARAMS (productivities DEFAULT_PARAMS) 0 (initial_prices DEFAULT_PARAMS ! (0 + 1)))"
proof -
  have k: "housesAvailable (H_at DEFAULT_PARAMS 0) (N_at DEFAULT_PARAMS 0) = 1000"
    by (simp add: housesAvailable_def H_at_def N_at_def DEFAULT_PARAMS_def AGENTS_COUNT_def)
  have s: "0 \<le> initialTech DEFAULT_PARAMS * initialPop DEFAULT_PARAMS"
    by (simp add: DEFAULT_PARAMS_def)
  have k': "0 < housesAvailable (H_at DEFAULT_PARAMS 0) (N_at DEFAULT_PARAMS 0)"
    by (simp add: k)
  have t: "(0::nat) < 3" by simp
  show ?thesis
    using house_price_is_path_entry[OF t s, of "initial_prices DEFAULT_PARAMS"] s k' t
    by blast
qed

section \<open>Configurations that are not validated\<close>

text \<open>
  Claim C4, as stated, fails: the configuration with dispersion 0, discount factor 0 and
  housing stock 0 is ill-posed, and \<open>simulate\<close> returns three records for it.
\<close>

theorem ill_posed_not_rejected:
  "ill_posed (DEFAULT_PARAMS\<lparr>inequality := 0, beta := 0, initialHousing := 0\<rparr>) \<and>
   \<not> isl (simulate_outcome (DEFAULT_PARAMS\<lparr>inequality := 0, beta := 0, initialHousing := 0\<rparr>)) \<and>
   length (projr (simulate_outcome (DEFAULT_PARAMS\<lparr>inequality := 0, beta := 0, initialHousing := 0\<rparr>))) = 3"
  by (simp add: ill_posed_def simulate_outcome_def length_simulate DEFAULT_PARAMS_def)

text \<open>
  Claim C4, amended. \<open>simulate\<close> validates nothing: for every configuration, ill-posed
  or not, it signals no error and returns three records.
\<close>

theorem simulate_never_rejects:
  "\<not> isl (simulate_outcome params) \<and> length (projr (simulate_outcome params)) = 3"
  by (simp add: simulate_outcome_def length_simulate)

section \<open>The fields of a result\<close>

text \<open>
  Claim C2. The record that \<open>simulate\<close> builds has the sixteen properties below and no
  other: the resale price \<open>housePriceNext\<close>, the income percentiles \<open>incomeP25\<close>,
  \<open>incomeMedian\<close>, \<open>incomeP75\<close> and the per-household list \<open>incomeDistribution\<close>, which the
  user interface reads from every record, are undefined.
\<close>

theorem result_lacks_fields:
  "property (generation_result params prods prices t) ''housePriceNext'' = None \<and>
   property (generation_result params prods prices t) ''incomeP25'' = None \<and>
   property (generation_result params prods prices t) ''incomeMedian'' = None \<and>
   property (generation_result params prods prices t) ''incomeP75'' = None \<and>
   property (generation_result params prods prices t) ''incomeDistribution'' = None \<and>
   map fst (to_object (generation_result params prods prices t)) =
     [''name'', ''time'', ''ownershipRate'', ''priceToIncome'', ''avgLifetimeUtility'',
      ''avgUtilityOwners'', ''avgUtilityRenters'', ''utilityP25'', ''utilityMedian'',
      ''utilityP75'', ''avgConsumptionYoung'', ''avgConsumptionOld'', ''housePrice'',
      ''population'', ''housingStock'', ''incomeMean'']"
  by (simp add: property_def to_object_def)

end
